theory Spec2Isabelle
  imports Main "HOL-Library.AList"
begin

section \<open>The JavaScript runtime, as far as \<^verbatim>\<open>mod.ts\<close> uses it\<close>

subsection \<open>Numbers\<close>

text \<open>
  \<^verbatim>\<open>mod.ts\<close> handles epoch milliseconds and whole seconds. A finite number is
  modelled as an integer; \<^verbatim>\<open>NaN\<close> and the two infinities are kept, because the code
  tests for them (\<^verbatim>\<open>isNaN\<close>, \<^verbatim>\<open>|| Infinity\<close>). Fractions, negative zero and the
  rounding of doubles beyond \<open>2^53\<close> are outside this model.
\<close>

datatype number = Fin int | NaN | PosInf | NegInf

fun isNaN :: "number \<Rightarrow> bool" where
  "isNaN NaN = True"
| "isNaN _ = False"

text \<open>\<^verbatim>\<open>a > b\<close> on numbers: false as soon as one side is \<^verbatim>\<open>NaN\<close>.\<close>

fun num_gt :: "number \<Rightarrow> number \<Rightarrow> bool" where
  "num_gt NaN _ = False"
| "num_gt _ NaN = False"
| "num_gt (Fin a) (Fin b) = (a > b)"
| "num_gt PosInf PosInf = False"
| "num_gt PosInf _ = True"
| "num_gt NegInf _ = False"
| "num_gt (Fin a) NegInf = True"
| "num_gt (Fin a) PosInf = False"

definition num_lt :: "number \<Rightarrow> number \<Rightarrow> bool" where
  "num_lt a b = num_gt b a"

text \<open>\<^verbatim>\<open>a <= b\<close> on numbers (used to state properties; the code itself only compares with \<^verbatim>\<open>>\<close>).\<close>

fun num_le :: "number \<Rightarrow> number \<Rightarrow> bool" where
  "num_le NaN _ = False"
| "num_le _ NaN = False"
| "num_le a b = (\<not> num_gt a b)"

fun num_add :: "number \<Rightarrow> number \<Rightarrow> number" where
  "num_add NaN _ = NaN"
| "num_add _ NaN = NaN"
| "num_add (Fin a) (Fin b) = Fin (a + b)"
| "num_add PosInf NegInf = NaN"
| "num_add NegInf PosInf = NaN"
| "num_add PosInf _ = PosInf"
| "num_add NegInf _ = NegInf"
| "num_add (Fin a) b = b"

fun num_mul :: "number \<Rightarrow> number \<Rightarrow> number" where
  "num_mul NaN _ = NaN"
| "num_mul _ NaN = NaN"
| "num_mul (Fin a) (Fin b) = Fin (a * b)"
| "num_mul (Fin a) PosInf = (if a = 0 then NaN else if a > 0 then PosInf else NegInf)"
| "num_mul (Fin a) NegInf = (if a = 0 then NaN else if a > 0 then NegInf else PosInf)"
| "num_mul PosInf (Fin b) = (if b = 0 then NaN else if b > 0 then PosInf else NegInf)"
| "num_mul NegInf (Fin b) = (if b = 0 then NaN else if b > 0 then NegInf else PosInf)"
| "num_mul PosInf PosInf = PosInf"
| "num_mul NegInf NegInf = PosInf"
| "num_mul PosInf NegInf = NegInf"
| "num_mul NegInf PosInf = NegInf"

text \<open>Truthiness of a number: \<^verbatim>\<open>0\<close> and \<^verbatim>\<open>NaN\<close> are falsy, so \<^verbatim>\<open>x || y\<close> is \<open>y\<close> there.\<close>

definition num_or :: "number \<Rightarrow> number \<Rightarrow> number" where
  "num_or x y = (if x = Fin 0 \<or> x = NaN then y else x)"

subsection \<open>Numbers to strings and back\<close>

text \<open>
  Strings are lists of 8-bit characters. \<open>String_number\<close> is the conversion a template
  literal applies (\<^verbatim>\<open>`${expireAt}`\<close>); on the integers of this model
  \<^verbatim>\<open>expireAt.toFixed()\<close> prints the same digits.
\<close>

definition digit_char :: "nat \<Rightarrow> char" where
  "digit_char d = ''0123456789'' ! d"

definition is_digit :: "char \<Rightarrow> bool" where
  "is_digit c = (48 \<le> (of_char c :: nat) \<and> (of_char c :: nat) \<le> 57)"

definition digit_val :: "char \<Rightarrow> nat" where
  "digit_val c = of_char c - 48"

fun digits :: "nat \<Rightarrow> string" where
  "digits n = (if n < 10 then [digit_char n] else digits (n div 10) @ [digit_char (n mod 10)])"

declare digits.simps [simp del]

fun String_number :: "number \<Rightarrow> string" where
  "String_number (Fin i) = (if i < 0 then CHR ''-'' # digits (nat (- i)) else digits (nat i))"
| "String_number NaN = ''NaN''"
| "String_number PosInf = ''Infinity''"
| "String_number NegInf = ''-Infinity''"

definition toFixed :: "number \<Rightarrow> string" where
  "toFixed x = String_number x"

text \<open>
  \<^verbatim>\<open>Number(s)\<close> on a string: white space is trimmed, the empty string is \<open>0\<close>, then an
  optional sign and either decimal digits or \<^verbatim>\<open>Infinity\<close>. Literals with a fraction, an
  exponent or a radix prefix denote numbers this model does not have; like every other
  text they are read as \<^verbatim>\<open>NaN\<close> here.
\<close>

definition is_space :: "char \<Rightarrow> bool" where
  "is_space c = ((of_char c :: nat) \<in> {9, 10, 11, 12, 13, 32, 160})"

definition trim :: "string \<Rightarrow> string" where
  "trim s = rev (dropWhile is_space (rev (dropWhile is_space s)))"

definition digits_val :: "string \<Rightarrow> nat" where
  "digits_val s = foldl (\<lambda>acc c. 10 * acc + digit_val c) 0 s"

definition unsigned_literal :: "string \<Rightarrow> number" where
  "unsigned_literal s =
     (if s = ''Infinity'' then PosInf
      else if s \<noteq> [] \<and> list_all is_digit s then Fin (int (digits_val s))
      else NaN)"

fun num_neg :: "number \<Rightarrow> number" where
  "num_neg (Fin i) = Fin (- i)"
| "num_neg NaN = NaN"
| "num_neg PosInf = NegInf"
| "num_neg NegInf = PosInf"

definition Number_string :: "string \<Rightarrow> number" where
  "Number_string s =
     (case trim s of
        [] \<Rightarrow> Fin 0
      | c # r \<Rightarrow>
          if c = CHR ''+'' then unsigned_literal r
          else if c = CHR ''-'' then num_neg (unsigned_literal r)
          else unsigned_literal (c # r))"

text \<open>\<^verbatim>\<open>Number(value)\<close> where \<open>value\<close> is a string or \<^verbatim>\<open>null\<close>; \<^verbatim>\<open>Number(null)\<close> is \<open>0\<close>.\<close>

definition Number_js :: "string option \<Rightarrow> number" where
  "Number_js v = (case v of None \<Rightarrow> Fin 0 | Some s \<Rightarrow> Number_string s)"

subsection \<open>String primitives\<close>

text \<open>\<^verbatim>\<open>s.indexOf(c)\<close>: the index of the first occurrence, \<open>-1\<close> when there is none.\<close>

fun indexOf :: "string \<Rightarrow> char \<Rightarrow> int" where
  "indexOf [] c = - 1"
| "indexOf (x # xs) c =
     (if x = c then 0 else (let i = indexOf xs c in if i < 0 then - 1 else i + 1))"

definition startsWith :: "string \<Rightarrow> string \<Rightarrow> bool" where
  "startsWith s p = (take (length p) s = p)"

subsection \<open>The underlying store\<close>

text \<open>
  \<^verbatim>\<open>StorePartial\<close> picks \<^verbatim>\<open>length\<close>, \<^verbatim>\<open>getItem\<close>, \<^verbatim>\<open>key\<close>, \<^verbatim>\<open>removeItem\<close> and
  \<^verbatim>\<open>setItem\<close> from the DOM \<^verbatim>\<open>Storage\<close> interface. It is modelled as an in-memory
  association list in enumeration order: \<^verbatim>\<open>setItem\<close> overwrites in place or appends,
  and no operation fails. A store holds each key at most once (\<open>wf_storage\<close>).
\<close>

type_synonym storage = "(string \<times> string) list"

definition wf_storage :: "storage \<Rightarrow> bool" where
  "wf_storage st = distinct (map fst st)"

definition Storage_length :: "storage \<Rightarrow> nat" where
  "Storage_length st = length st"

definition Storage_key :: "storage \<Rightarrow> nat \<Rightarrow> string option" where
  "Storage_key st i = (if i < length st then Some (fst (st ! i)) else None)"

definition Storage_getItem :: "storage \<Rightarrow> string \<Rightarrow> string option" where
  "Storage_getItem st k = map_of st k"

definition Storage_removeItem :: "storage \<Rightarrow> string \<Rightarrow> storage" where
  "Storage_removeItem st k = AList.delete k st"

definition Storage_setItem :: "storage \<Rightarrow> string \<Rightarrow> string \<Rightarrow> storage" where
  "Storage_setItem st k v = AList.update k v st"

subsection \<open>JSON\<close>

text \<open>
  The values \<^verbatim>\<open>JSON.stringify\<close> writes and \<^verbatim>\<open>JSON.parse\<close> reads: \<^verbatim>\<open>null\<close>,
  booleans, integers, strings, arrays and objects (an object as the list of its members
  in order). \<open>JSON_parse\<close> returns \<open>None\<close> where \<^verbatim>\<open>JSON.parse\<close> throws. Numbers with
  a fraction or an exponent and \<^verbatim>\<open>\u\<close> escapes beyond one byte are outside the model
  and are rejected.
\<close>

datatype json = JNull | JBool bool | JNum int | JStr string
  | JArr "json list" | JObj "(string \<times> json) list"

definition hex_char :: "nat \<Rightarrow> char" where
  "hex_char d = (if d < 10 then char_of (48 + d) else char_of (87 + d))"

definition hex_val :: "char \<Rightarrow> nat option" where
  "hex_val c =
     (let n = (of_char c :: nat) in
      if 48 \<le> n \<and> n \<le> 57 then Some (n - 48)
      else if 97 \<le> n \<and> n \<le> 102 then Some (n - 87)
      else if 65 \<le> n \<and> n \<le> 70 then Some (n - 55)
      else None)"

definition escape_char :: "char \<Rightarrow> string" where
  "escape_char c =
     (if c = CHR 0x22 then [CHR 0x5C, CHR 0x22]
      else if c = CHR 0x5C then [CHR 0x5C, CHR 0x5C]
      else if c = CHR 0x08 then [CHR 0x5C, CHR ''b'']
      else if c = CHR 0x0C then [CHR 0x5C, CHR ''f'']
      else if c = CHR 0x0A then [CHR 0x5C, CHR ''n'']
      else if c = CHR 0x0D then [CHR 0x5C, CHR ''r'']
      else if c = CHR 0x09 then [CHR 0x5C, CHR ''t'']
      else if (of_char c :: nat) < 32
        then [CHR 0x5C, CHR ''u'', CHR ''0'', CHR ''0'',
              hex_char ((of_char c :: nat) div 16), hex_char ((of_char c :: nat) mod 16)]
      else [c])"

definition quote :: "string \<Rightarrow> string" where
  "quote s = CHR 0x22 # concat (map escape_char s) @ [CHR 0x22]"

fun JSON_stringify :: "json \<Rightarrow> string"
  and stringify_elems :: "json list \<Rightarrow> string"
  and stringify_members :: "(string \<times> json) list \<Rightarrow> string" where
  "JSON_stringify JNull = ''null''"
| "JSON_stringify (JBool b) = (if b then ''true'' else ''false'')"
| "JSON_stringify (JNum i) = String_number (Fin i)"
| "JSON_stringify (JStr s) = quote s"
| "JSON_stringify (JArr xs) = CHR ''['' # stringify_elems xs @ '']''"
| "JSON_stringify (JObj ms) = CHR ''{'' # stringify_members ms @ ''}''"
| "stringify_elems [] = []"
| "stringify_elems (x # xs) =
     (if xs = [] then JSON_stringify x else JSON_stringify x @ CHR '','' # stringify_elems xs)"
| "stringify_members [] = []"
| "stringify_members (m # ms) =
     (if ms = [] then quote (fst m) @ CHR '':'' # JSON_stringify (snd m)
      else quote (fst m) @ CHR '':'' # JSON_stringify (snd m) @ CHR '','' # stringify_members ms)"

definition json_space :: "char \<Rightarrow> bool" where
  "json_space c = ((of_char c :: nat) \<in> {9, 10, 13, 32})"

definition skip_ws :: "string \<Rightarrow> string" where
  "skip_ws s = dropWhile json_space s"

text \<open>The characters of a string literal after its opening quote, up to the closing one.\<close>

fun parse_chars :: "string \<Rightarrow> (string \<times> string) option" where
  "parse_chars [] = None"
| "parse_chars (c # r) =
     (if c = CHR 0x22 then Some ([], r)
      else if c = CHR 0x5C then
        (case r of
           [] \<Rightarrow> None
         | e # r' \<Rightarrow>
             if e = CHR ''u'' then
               (case r' of
                  h1 # h2 # h3 # h4 # r'' \<Rightarrow>
                    (case (hex_val h1, hex_val h2, hex_val h3, hex_val h4) of
                       (Some a, Some b, Some c', Some d) \<Rightarrow>
                         if a = 0 \<and> b = 0 then
                           map_option (\<lambda>(s, t). (char_of (16 * c' + d) # s, t)) (parse_chars r'')
                         else None
                     | _ \<Rightarrow> None)
                | _ \<Rightarrow> None)
             else
               (case (if e = CHR 0x22 then Some (CHR 0x22)
                      else if e = CHR 0x5C then Some (CHR 0x5C)
                      else if e = CHR ''/'' then Some (CHR ''/'')
                      else if e = CHR ''b'' then Some (CHR 0x08)
                      else if e = CHR ''f'' then Some (CHR 0x0C)
                      else if e = CHR ''n'' then Some (CHR 0x0A)
                      else if e = CHR ''r'' then Some (CHR 0x0D)
                      else if e = CHR ''t'' then Some (CHR 0x09)
                      else None) of
                  None \<Rightarrow> None
                | Some x \<Rightarrow> map_option (\<lambda>(s, t). (x # s, t)) (parse_chars r')))
      else if (of_char c :: nat) < 32 then None
      else map_option (\<lambda>(s, t). (c # s, t)) (parse_chars r))"

text \<open>An integer literal: an optional minus sign, then \<open>0\<close> or digits without a leading zero.\<close>

definition parse_int :: "string \<Rightarrow> (json \<times> string) option" where
  "parse_int s =
     (let neg = (s \<noteq> [] \<and> hd s = CHR ''-'');
          u = (if neg then tl s else s);
          ds = takeWhile is_digit u;
          r = dropWhile is_digit u
      in if ds = [] \<or> (length ds > 1 \<and> hd ds = CHR ''0'') then None
         else if r \<noteq> [] \<and> hd r \<in> {CHR ''.'', CHR ''e'', CHR ''E''} then None
         else Some (JNum (if neg then - int (digits_val ds) else int (digits_val ds)), r))"

text \<open>
  Recursive descent with fuel: every call is given one unit less than its caller, and
  \<open>JSON_parse\<close> starts with more than the text can use.
\<close>

fun parse_value :: "nat \<Rightarrow> string \<Rightarrow> (json \<times> string) option"
  and parse_elems :: "nat \<Rightarrow> string \<Rightarrow> (json list \<times> string) option"
  and parse_members :: "nat \<Rightarrow> string \<Rightarrow> ((string \<times> json) list \<times> string) option" where
  "parse_value 0 s = None"
| "parse_value (Suc n) s =
     (let t = skip_ws s in
      if startsWith t ''null'' then Some (JNull, drop 4 t)
      else if startsWith t ''true'' then Some (JBool True, drop 4 t)
      else if startsWith t ''false'' then Some (JBool False, drop 5 t)
      else
        (case t of
           [] \<Rightarrow> None
         | c # r \<Rightarrow>
             if c = CHR 0x22 then map_option (\<lambda>(x, r'). (JStr x, r')) (parse_chars r)
             else if c = CHR ''['' then
               (if startsWith (skip_ws r) '']'' then Some (JArr [], drop 1 (skip_ws r))
                else map_option (\<lambda>(xs, r'). (JArr xs, r')) (parse_elems n r))
             else if c = CHR ''{'' then
               (if startsWith (skip_ws r) ''}'' then Some (JObj [], drop 1 (skip_ws r))
                else map_option (\<lambda>(ms, r'). (JObj ms, r')) (parse_members n r))
             else parse_int t))"
| "parse_elems 0 s = None"
| "parse_elems (Suc n) s =
     (case parse_value n s of
        None \<Rightarrow> None
      | Some (v, r) \<Rightarrow>
          (case skip_ws r of
             [] \<Rightarrow> None
           | c # r' \<Rightarrow>
               if c = CHR '','' then map_option (\<lambda>(vs, r''). (v # vs, r'')) (parse_elems n r')
               else if c = CHR '']'' then Some ([v], r')
               else None))"
| "parse_members 0 s = None"
| "parse_members (Suc n) s =
     (case skip_ws s of
        [] \<Rightarrow> None
      | q # r \<Rightarrow>
          if q \<noteq> CHR 0x22 then None
          else
            (case parse_chars r of
               None \<Rightarrow> None
             | Some (k, r1) \<Rightarrow>
                 (case skip_ws r1 of
                    [] \<Rightarrow> None
                  | c # r2 \<Rightarrow>
                      if c \<noteq> CHR '':'' then None
                      else
                        (case parse_value n r2 of
                           None \<Rightarrow> None
                         | Some (v, r3) \<Rightarrow>
                             (case skip_ws r3 of
                                [] \<Rightarrow> None
                              | d # r4 \<Rightarrow>
                                  if d = CHR '','' then
                                    map_option (\<lambda>(ms, r5). ((k, v) # ms, r5)) (parse_members n r4)
                                  else if d = CHR ''}'' then Some ([(k, v)], r4)
                                  else None)))))"

definition JSON_parse :: "string \<Rightarrow> json option" where
  "JSON_parse s =
     (case parse_value (2 * length s + 2) s of
        None \<Rightarrow> None
      | Some (v, r) \<Rightarrow> if skip_ws r = [] then Some v else None)"

section \<open>The TTL store of \<^verbatim>\<open>mod.ts\<close>\<close>

text \<open>
  A \<^verbatim>\<open>TTLStore\<close> object holds its namespace and a reference to the underlying store.
  Every method takes the object and returns it updated. \<^verbatim>\<open>Date.now()\<close> is the
  parameter \<open>now\<close> (epoch milliseconds), read once per call of a public method: the
  clock does not tick while a method runs.
\<close>

record TTLStore =
  name :: string
  store :: storage

definition checkFresh :: "number \<Rightarrow> int \<Rightarrow> bool" where
  "checkFresh expireAt now =
     (if expireAt = Fin (- 1) then True
      else if isNaN expireAt then False
      else num_gt expireAt (Fin now))"

text \<open>\<open>tryJson\<close> gets a string or \<^verbatim>\<open>null\<close>; a failed parse and a parsed \<^verbatim>\<open>null\<close> are both \<open>JNull\<close>.\<close>

definition tryJson :: "string option \<Rightarrow> json" where
  "tryJson v =
     (case v of
        None \<Rightarrow> JNull
      | Some s \<Rightarrow> (case JSON_parse s of Some x \<Rightarrow> x | None \<Rightarrow> JNull))"

definition makeKey :: "TTLStore \<Rightarrow> string \<Rightarrow> string" where
  "makeKey this key = name this @ CHR '':'' # key"

definition makeDataKey :: "TTLStore \<Rightarrow> string \<Rightarrow> string" where
  "makeDataKey this key = name this @ CHR ''.'' # key"

definition getNext :: "TTLStore \<Rightarrow> number" where
  "getNext this =
     (let v = Storage_getItem (store this) (makeKey this ''next'')
      in num_or (Number_js v) PosInf)"

text \<open>The result of \<^verbatim>\<open>$get\<close>: \<open>item\<close> is \<open>None\<close> for \<^verbatim>\<open>null\<close>.\<close>

record entry =
  expireAt :: number
  item :: "string option"

definition NULL_DATA :: entry where
  "NULL_DATA = \<lparr>expireAt = Fin 1, item = None\<rparr>"

text \<open>\<^verbatim>\<open>$get\<close>. Nothing in its body throws in this model, so the \<^verbatim>\<open>catch\<close> has no case.\<close>

definition dollar_get :: "TTLStore \<Rightarrow> int \<Rightarrow> string \<Rightarrow> entry" where
  "dollar_get this now key =
     (let dataKey = makeDataKey this key in
      case Storage_getItem (store this) dataKey of
        None \<Rightarrow> NULL_DATA
      | Some v \<Rightarrow>
          if v = [] then NULL_DATA
          else
            (let index = indexOf v CHR '':'' in
             if index < 1 then NULL_DATA
             else
               (let e = Number_string (take (nat index) v) in
                if \<not> checkFresh e now then NULL_DATA
                else \<lparr>expireAt = e, item = Some (drop (nat (index + 1)) v)\<rparr>)))"

text \<open>\<^verbatim>\<open>$set\<close>; \<open>itm\<close> is \<open>None\<close> for \<^verbatim>\<open>null\<close>.\<close>

definition dollar_set :: "TTLStore \<Rightarrow> int \<Rightarrow> string \<Rightarrow> string option \<Rightarrow> number \<Rightarrow> TTLStore" where
  "dollar_set this now key itm e =
     (let dataKey = makeDataKey this key in
      case itm of
        None \<Rightarrow> this\<lparr>store := Storage_removeItem (store this) dataKey\<rparr>
      | Some payload \<Rightarrow>
          if \<not> checkFresh e now then this\<lparr>store := Storage_removeItem (store this) dataKey\<rparr>
          else
            (let this1 = this\<lparr>store := Storage_setItem (store this) dataKey
                                         (String_number e @ CHR '':'' # payload)\<rparr>
             in if isNaN e \<or> num_gt e (getNext this1) then this1
                else this1\<lparr>store := Storage_setItem (store this1) (makeKey this1 ''next'')
                                       (toFixed e)\<rparr>))"

text \<open>
  \<^verbatim>\<open>$list\<close>: the \<^verbatim>\<open>for\<close> loop over the indices of the store, building the object
  \<open>data\<close> as an association list (assigning to a key it already has overwrites it).
\<close>

definition list_step :: "TTLStore \<Rightarrow> int \<Rightarrow> nat \<Rightarrow> (string \<times> number) list \<Rightarrow> (string \<times> number) list" where
  "list_step this now i data =
     (let pfx = makeDataKey this [] in
      case Storage_key (store this) i of
        None \<Rightarrow> data
      | Some skey \<Rightarrow>
          if \<not> startsWith skey pfx then data
          else
            (let key = drop (length pfx) skey
             in AList.update key (expireAt (dollar_get this now key)) data))"

definition dollar_list :: "TTLStore \<Rightarrow> int \<Rightarrow> (string \<times> number) list" where
  "dollar_list this now = fold (list_step this now) [0 ..< Storage_length (store this)] []"

text \<open>
  \<^verbatim>\<open>clean\<close>: the loop over \<^verbatim>\<open>Object.entries(data)\<close>. Each round only removes the
  record of its own key, so the order in which the entries come does not change the
  store that results.
\<close>

definition clean_step :: "int \<Rightarrow> string \<times> number \<Rightarrow> TTLStore \<Rightarrow> TTLStore" where
  "clean_step now kv this =
     (if checkFresh (snd kv) now then this
      else dollar_set this now (fst kv) None (Fin (- 1)))"

definition clean :: "TTLStore \<Rightarrow> int \<Rightarrow> TTLStore" where
  "clean this now =
     (let next = getNext this in
      if num_gt next (Fin now) then this
      else fold (clean_step now) (dollar_list this now) this)"

text \<open>The constructor stores its two arguments and cleans once.\<close>

definition new_TTLStore :: "string \<Rightarrow> storage \<Rightarrow> int \<Rightarrow> TTLStore" where
  "new_TTLStore nm st now = clean \<lparr>name = nm, store = st\<rparr> now"

text \<open>An optional numeric argument with the default \<open>-1\<close>: \<open>None\<close> when the caller leaves it out.\<close>

definition default_arg :: "number option \<Rightarrow> number" where
  "default_arg a = (case a of None \<Rightarrow> Fin (- 1) | Some x \<Rightarrow> x)"

definition setExpireAt :: "TTLStore \<Rightarrow> int \<Rightarrow> string \<Rightarrow> number option \<Rightarrow> TTLStore" where
  "setExpireAt this now key e_opt =
     (let e = default_arg e_opt;
          itm = item (dollar_get this now key)
      in dollar_set this now key itm e)"

definition setExpire :: "TTLStore \<Rightarrow> int \<Rightarrow> string \<Rightarrow> number option \<Rightarrow> TTLStore" where
  "setExpire this now key expire_opt =
     (let expire = default_arg expire_opt in
      if num_lt expire (Fin 0) then setExpireAt this now key None
      else setExpireAt this now key (Some (num_add (Fin now) (num_mul expire (Fin 1000)))))"

definition getItem :: "TTLStore \<Rightarrow> int \<Rightarrow> string \<Rightarrow> TTLStore \<times> json" where
  "getItem this now key =
     (let this1 = clean this now
      in (this1, tryJson (item (dollar_get this1 now key))))"

definition removeItem :: "TTLStore \<Rightarrow> int \<Rightarrow> string \<Rightarrow> TTLStore" where
  "removeItem this now key = dollar_set this now key None (Fin (- 1))"

text \<open>
  \<^verbatim>\<open>setItemUntil\<close>. \<^verbatim>\<open>JSON.stringify\<close> is total on the values of the model, so the
  \<^verbatim>\<open>catch\<close> has no case.
\<close>

definition setItemUntil :: "TTLStore \<Rightarrow> int \<Rightarrow> string \<Rightarrow> json \<Rightarrow> number option \<Rightarrow> TTLStore" where
  "setItemUntil this now key v e_opt =
     (let e = default_arg e_opt;
          itm = JSON_stringify v
      in dollar_set this now key (Some itm) e)"

definition setItem :: "TTLStore \<Rightarrow> int \<Rightarrow> string \<Rightarrow> json \<Rightarrow> number option \<Rightarrow> TTLStore" where
  "setItem this now key v expire_opt =
     (let expire = default_arg expire_opt in
      if num_lt expire (Fin 0) then setItemUntil this now key v None
      else setItemUntil this now key v (Some (num_add (Fin now) (num_mul expire (Fin 1000)))))"

definition updateItem :: "TTLStore \<Rightarrow> int \<Rightarrow> string \<Rightarrow> json \<Rightarrow> TTLStore" where
  "updateItem this now key v =
     (let e = expireAt (dollar_get this now key)
      in setItemUntil this now key v (Some e))"

section \<open>Notions used to state the properties\<close>

text \<open>One round of the loop of \<^verbatim>\<open>$list\<close>, seen from the key that \<^verbatim>\<open>store.key(i)\<close> returns.\<close>

definition list_key_step :: "TTLStore \<Rightarrow> int \<Rightarrow> string \<Rightarrow> (string \<times> number) list \<Rightarrow> (string \<times> number) list" where
  "list_key_step this now skey data =
     (if \<not> startsWith skey (makeDataKey this []) then data
      else AList.update (drop (length (makeDataKey this [])) skey)
             (expireAt (dollar_get this now (drop (length (makeDataKey this [])) skey))) data)"

text \<open>
  A raw key is stale when it is a data key of the namespace and \<^verbatim>\<open>clean\<close> finds the
  \<open>expireAt\<close> that \<^verbatim>\<open>$get\<close> reports for it not fresh.
\<close>

definition stale :: "TTLStore \<Rightarrow> int \<Rightarrow> string \<Rightarrow> bool" where
  "stale this now skey =
     (startsWith skey (makeDataKey this []) \<and>
      \<not> checkFresh (expireAt (dollar_get this now (drop (length (makeDataKey this [])) skey))) now)"

text \<open>The calls of the public interface, and a store run through a list of timed calls.\<close>

datatype call =
    SetItem string json "number option"
  | SetItemUntil string json "number option"
  | UpdateItem string json
  | SetExpire string "number option"
  | SetExpireAt string "number option"
  | RemoveItem string
  | GetItem string
  | Clean

fun perform :: "call \<Rightarrow> int \<Rightarrow> TTLStore \<Rightarrow> TTLStore" where
  "perform (SetItem k v e) now this = setItem this now k v e"
| "perform (SetItemUntil k v e) now this = setItemUntil this now k v e"
| "perform (UpdateItem k v) now this = updateItem this now k v"
| "perform (SetExpire k e) now this = setExpire this now k e"
| "perform (SetExpireAt k e) now this = setExpireAt this now k e"
| "perform (RemoveItem k) now this = removeItem this now k"
| "perform (GetItem k) now this = fst (getItem this now k)"
| "perform Clean now this = clean this now"

fun run :: "(call \<times> int) list \<Rightarrow> TTLStore \<Rightarrow> TTLStore" where
  "run [] this = this"
| "run (ct # cs) this = run cs (perform (fst ct) (snd ct) this)"

text \<open>
  The logical keys that have a raw data record, and the \<open>expireAt\<close> of those among them
  that \<^verbatim>\<open>$get\<close> reports as fresh entries at time \<open>now\<close>.
\<close>

definition data_keys :: "TTLStore \<Rightarrow> string list" where
  "data_keys this =
     map (drop (length (makeDataKey this [])))
       (filter (\<lambda>sk. startsWith sk (makeDataKey this [])) (map fst (store this)))"

definition fresh_expiries :: "TTLStore \<Rightarrow> int \<Rightarrow> number list" where
  "fresh_expiries this now =
     map (\<lambda>k. expireAt (dollar_get this now k))
       (filter (\<lambda>k. item (dollar_get this now k) \<noteq> None) (data_keys this))"

text \<open>
  The sentinel invariant in two strengths. \<open>sentinel_le_min\<close> says nothing when the
  sentinel record is absent; \<open>sentinel_covers\<close> asks, as soon as one entry is fresh, for
  a sentinel record that is present, does not read as \<open>0\<close> and is at most every fresh
  \<open>expireAt\<close>.
\<close>

definition sentinel_le_min :: "TTLStore \<Rightarrow> int \<Rightarrow> bool" where
  "sentinel_le_min this now =
     (case Storage_getItem (store this) (makeKey this ''next'') of
        None \<Rightarrow> True
      | Some s \<Rightarrow> list_all (num_le (Number_string s)) (fresh_expiries this now))"

definition sentinel_covers :: "TTLStore \<Rightarrow> int \<Rightarrow> bool" where
  "sentinel_covers this now =
     (fresh_expiries this now = [] \<or>
      (case Storage_getItem (store this) (makeKey this ''next'') of
         None \<Rightarrow> False
       | Some s \<Rightarrow> Number_string s \<noteq> Fin 0 \<and>
           list_all (num_le (Number_string s)) (fresh_expiries this now)))"

section \<open>Facts about the runtime model\<close>

lemma digit_char_simps:
  "digit_char 0 = CHR ''0''" "digit_char 1 = CHR ''1''" "digit_char 2 = CHR ''2''"
  "digit_char 3 = CHR ''3''" "digit_char 4 = CHR ''4''" "digit_char 5 = CHR ''5''"
  "digit_char 6 = CHR ''6''" "digit_char 7 = CHR ''7''" "digit_char 8 = CHR ''8''"
  "digit_char 9 = CHR ''9''" "digit_char (Suc 0) = CHR ''1''"
  by (simp_all add: digit_char_def)

lemma of_char_digit_char: "d < 10 \<Longrightarrow> (of_char (digit_char d) :: nat) = 48 + d"
proof -
  assume "d < 10"
  then have "d \<in> {0, 1, 2, 3, 4, 5, 6, 7, 8, 9}" by auto
  then show ?thesis by (auto simp: digit_char_simps)
qed

lemma is_digit_digit_char: "d < 10 \<Longrightarrow> is_digit (digit_char d)"
  by (simp add: is_digit_def of_char_digit_char)

lemma digit_val_digit_char: "d < 10 \<Longrightarrow> digit_val (digit_char d) = d"
  by (simp add: digit_val_def of_char_digit_char)

lemma digits_nonempty: "digits n \<noteq> []"
  by (subst digits.simps) simp

lemma digits_all_digit: "list_all is_digit (digits n)"
proof (induction n rule: digits.induct)
  case (1 n)
  show ?case
  proof (cases "n < 10")
    case True
    then show ?thesis by (subst digits.simps) (simp add: is_digit_digit_char)
  next
    case False
    with 1 show ?thesis by (subst digits.simps) (simp add: is_digit_digit_char)
  qed
qed

lemma digits_val_snoc: "digits_val (s @ [c]) = 10 * digits_val s + digit_val c"
  by (simp add: digits_val_def)

lemma digits_val_digits: "digits_val (digits n) = n"
proof (induction n rule: digits.induct)
  case (1 n)
  show ?case
  proof (cases "n < 10")
    case True
    then show ?thesis by (subst digits.simps) (simp add: digits_val_def digit_val_digit_char)
  next
    case False
    with 1 show ?thesis by (subst digits.simps) (simp add: digits_val_snoc digit_val_digit_char)
  qed
qed

lemma is_digit_not_space: "is_digit c \<Longrightarrow> \<not> is_space c"
  by (auto simp: is_digit_def is_space_def)

lemma trim_no_space: "\<forall>c\<in>set s. \<not> is_space c \<Longrightarrow> trim s = s"
proof -
  assume a: "\<forall>c\<in>set s. \<not> is_space c"
  have d: "\<And>xs. \<forall>c\<in>set xs. \<not> is_space c \<Longrightarrow> dropWhile is_space xs = xs"
    by (case_tac xs) auto
  from a have "dropWhile is_space s = s" by (rule d)
  moreover from a have "dropWhile is_space (rev s) = rev s" by (intro d) simp
  ultimately show ?thesis by (simp add: trim_def)
qed

lemma digits_no_space: "\<forall>c\<in>set (digits n). \<not> is_space c"
  using digits_all_digit [of n] by (auto simp: list_all_iff is_digit_not_space)

lemma digits_no_colon: "CHR '':'' \<notin> set (digits n)"
  using digits_all_digit [of n] by (auto simp: list_all_iff is_digit_def)

lemma String_number_no_colon: "CHR '':'' \<notin> set (String_number e)"
  by (cases e) (auto simp: digits_no_colon)

lemma String_number_nonempty: "String_number e \<noteq> []"
  by (cases e) (auto simp: digits_nonempty)

lemma unsigned_literal_digits: "unsigned_literal (digits n) = Fin (int n)"
proof -
  have "digits n \<noteq> ''Infinity''"
    using digits_all_digit [of n] by (auto simp: is_digit_def)
  then show ?thesis
    by (simp add: unsigned_literal_def digits_nonempty digits_all_digit digits_val_digits)
qed

lemma Number_string_digits: "Number_string (digits n) = Fin (int n)"
proof -
  obtain c r where cr: "digits n = c # r"
    using digits_nonempty [of n] by (cases "digits n") auto
  have "is_digit c" using digits_all_digit [of n] cr by simp
  then have "c \<noteq> CHR ''+''" "c \<noteq> CHR ''-''" by (auto simp: is_digit_def)
  moreover have "trim (digits n) = digits n" by (rule trim_no_space [OF digits_no_space])
  ultimately show ?thesis
    using unsigned_literal_digits [of n] by (simp add: Number_string_def cr)
qed

lemma Number_string_minus_digits: "Number_string (CHR ''-'' # digits n) = Fin (- int n)"
proof -
  have "\<forall>c\<in>set (CHR ''-'' # digits n). \<not> is_space c"
    using digits_no_space [of n] by (simp add: is_space_def)
  then have "trim (CHR ''-'' # digits n) = CHR ''-'' # digits n" by (rule trim_no_space)
  then show ?thesis by (simp add: Number_string_def unsigned_literal_digits)
qed

lemma Number_string_String_number: "Number_string (String_number e) = e"
proof (cases e)
  case (Fin i)
  then show ?thesis
    by (simp add: Number_string_digits Number_string_minus_digits)
next
  case NaN
  then show ?thesis
    by (simp add: Number_string_def trim_def is_space_def unsigned_literal_def is_digit_def)
next
  case PosInf
  then show ?thesis
    by (simp add: Number_string_def trim_def is_space_def unsigned_literal_def)
next
  case NegInf
  then show ?thesis
    by (simp add: Number_string_def trim_def is_space_def unsigned_literal_def)
qed

lemma indexOf_nonneg_iff: "indexOf s c \<ge> 0 \<longleftrightarrow> c \<in> set s"
  by (induction s) (auto simp: Let_def)

lemma indexOf_ge_minus1: "indexOf s c \<ge> - 1"
  by (induction s) (auto simp: Let_def)

lemma indexOf_append: "c \<notin> set xs \<Longrightarrow> indexOf (xs @ c # ys) c = int (length xs)"
  by (induction xs) (auto simp: Let_def)

lemma makeKey_neq_makeDataKey [simp]: "makeKey this a \<noteq> makeDataKey this b"
  "makeDataKey this b \<noteq> makeKey this a"
  by (simp_all add: makeKey_def makeDataKey_def)

lemma makeDataKey_inj [simp]: "makeDataKey this a = makeDataKey this b \<longleftrightarrow> a = b"
  by (simp add: makeDataKey_def)

lemma startsWith_makeDataKey [simp]: "startsWith (makeDataKey this k) (makeDataKey this [])"
  by (simp add: startsWith_def makeDataKey_def)

lemma drop_makeDataKey [simp]: "drop (length (makeDataKey this [])) (makeDataKey this k) = k"
  by (simp add: makeDataKey_def)

lemma startsWith_makeDataKeyD:
  "startsWith sk (makeDataKey this []) \<Longrightarrow> makeDataKey this (drop (length (makeDataKey this [])) sk) = sk"
  by (simp add: startsWith_def makeDataKey_def) (metis append_take_drop_id append.assoc append_Cons append_Nil)

lemma not_startsWith_makeKey [simp]: "\<not> startsWith (makeKey this k) (makeDataKey this [])"
  by (simp add: startsWith_def makeDataKey_def makeKey_def)

text \<open>What the two readers depend on.\<close>

lemma getNext_cong:
  "name a = name b \<Longrightarrow> map_of (store a) (makeKey a ''next'') = map_of (store b) (makeKey b ''next'')
   \<Longrightarrow> getNext a = getNext b"
  by (simp add: getNext_def Storage_getItem_def)

lemma dollar_get_cong:
  "name a = name b \<Longrightarrow> map_of (store a) (makeDataKey a key) = map_of (store b) (makeDataKey b key)
   \<Longrightarrow> dollar_get a now key = dollar_get b now key"
  by (simp add: dollar_get_def Storage_getItem_def)

lemma makeKey_name_cong: "name a = name b \<Longrightarrow> makeKey a k = makeKey b k"
  by (simp add: makeKey_def)

lemma makeDataKey_name_cong: "name a = name b \<Longrightarrow> makeDataKey a k = makeDataKey b k"
  by (simp add: makeDataKey_def)

lemma makeKey_store_update [simp]: "makeKey (this\<lparr>store := s\<rparr>) k = makeKey this k"
  by (simp add: makeKey_def)

lemma makeDataKey_store_update [simp]: "makeDataKey (this\<lparr>store := s\<rparr>) k = makeDataKey this k"
  by (simp add: makeDataKey_def)

lemma checkFresh_not_NaN: "checkFresh e now \<Longrightarrow> \<not> isNaN e"
  by (cases e) (auto simp: checkFresh_def)

lemma name_dollar_set [simp]: "name (dollar_set this now key itm e) = name this"
  by (simp add: dollar_set_def Let_def split: option.splits)

lemma getNext_data_write:
  "getNext (this\<lparr>store := AList.update (makeDataKey this key) v (store this)\<rparr>) = getNext this"
  by (simp add: getNext_def Storage_getItem_def update_conv')

text \<open>The records of the store after \<^verbatim>\<open>$set\<close>, key by key.\<close>

lemma map_of_dollar_set:
  "map_of (store (dollar_set this now key itm e)) k =
     (if k = makeDataKey this key then
        (case itm of
           None \<Rightarrow> None
         | Some p \<Rightarrow> if checkFresh e now then Some (String_number e @ CHR '':'' # p) else None)
      else if k = makeKey this ''next'' \<and> itm \<noteq> None \<and> checkFresh e now \<and> \<not> num_gt e (getNext this)
        then Some (toFixed e)
      else map_of (store this) k)"
  by (auto simp: dollar_set_def Let_def Storage_removeItem_def Storage_setItem_def
      update_conv' delete_conv' getNext_data_write checkFresh_not_NaN split: option.splits)

lemma dollar_get_written:
  "map_of (store this) (makeDataKey this key) = Some (String_number e @ CHR '':'' # p) \<Longrightarrow>
   dollar_get this now key =
     (if checkFresh e now then \<lparr>expireAt = e, item = Some p\<rparr> else NULL_DATA)"
  using String_number_nonempty [of e]
  by (simp add: dollar_get_def Storage_getItem_def Let_def indexOf_append String_number_no_colon
      Number_string_String_number nat_add_distrib)

lemma dollar_get_absent:
  "map_of (store this) (makeDataKey this key) = None \<Longrightarrow> dollar_get this now key = NULL_DATA"
  by (simp add: dollar_get_def Storage_getItem_def)

lemma dollar_get_cases:
  "dollar_get this now key = NULL_DATA \<or>
   (\<exists>e p. dollar_get this now key = \<lparr>expireAt = e, item = Some p\<rparr> \<and> checkFresh e now
      \<and> map_of (store this) (makeDataKey this key) \<noteq> None)"
  by (auto simp: dollar_get_def Storage_getItem_def Let_def split: option.splits)

subsection \<open>What \<^verbatim>\<open>clean\<close> removes\<close>

lemma fold_index_conv: "fold (\<lambda>i. g (xs ! i)) [0 ..< length xs] = fold g xs"
proof -
  have "fold g xs = fold g (map (\<lambda>i. xs ! i) [0 ..< length xs])"
    by (simp add: map_nth)
  also have "\<dots> = fold (\<lambda>i. g (xs ! i)) [0 ..< length xs]"
    by (simp add: fold_map comp_def)
  finally show ?thesis by simp
qed

lemma dollar_list_keys:
  "dollar_list this now = fold (list_key_step this now) (map fst (store this)) []"
proof -
  have "fold (list_step this now) [0 ..< length (store this)]
        = fold (\<lambda>i. list_key_step this now (map fst (store this) ! i)) [0 ..< length (store this)]"
    by (rule ext, rule fold_cong) (auto simp: list_step_def list_key_step_def Storage_key_def Let_def)
  also have "\<dots> = fold (list_key_step this now) (map fst (store this))"
    using fold_index_conv [of "list_key_step this now" "map fst (store this)"] by simp
  finally show ?thesis by (simp add: dollar_list_def Storage_length_def)
qed


lemma set_update_subset: "set (AList.update k v al) \<subseteq> insert (k, v) (set al)"
  by (induction al) auto

lemma fold_list_key_step_values:
  "\<forall>(k, e) \<in> set data. e = expireAt (dollar_get this now k) \<Longrightarrow>
   \<forall>(k, e) \<in> set (fold (list_key_step this now) ks data). e = expireAt (dollar_get this now k)"
proof (induction ks arbitrary: data)
  case Nil
  then show ?case by simp
next
  case (Cons sk ks)
  have "\<forall>(k, e) \<in> set (list_key_step this now sk data). e = expireAt (dollar_get this now k)"
  proof (cases "startsWith sk (makeDataKey this [])")
    case True
    let ?k = "drop (length (makeDataKey this [])) sk"
    have "set (list_key_step this now sk data)
          \<subseteq> insert (?k, expireAt (dollar_get this now ?k)) (set data)"
      using True set_update_subset by (simp add: list_key_step_def)
    with Cons.prems show ?thesis by auto
  next
    case False
    with Cons.prems show ?thesis by (simp add: list_key_step_def)
  qed
  then show ?case using Cons.IH by simp
qed

lemma fold_list_key_step_keys:
  "fst ` set (fold (list_key_step this now) ks data) =
   fst ` set data \<union> {drop (length (makeDataKey this [])) sk | sk. sk \<in> set ks \<and> startsWith sk (makeDataKey this [])}"
proof (induction ks arbitrary: data)
  case Nil
  then show ?case by simp
next
  case (Cons sk ks)
  show ?case
    by (simp add: Cons.IH) (auto simp: list_key_step_def dom_update)
qed

lemma dollar_list_values:
  "(k, e) \<in> set (dollar_list this now) \<Longrightarrow> e = expireAt (dollar_get this now k)"
  using fold_list_key_step_values [of "[]" this now "map fst (store this)"]
  by (auto simp: dollar_list_keys)

lemma dollar_list_keys_set:
  "fst ` set (dollar_list this now) =
   {drop (length (makeDataKey this [])) sk | sk. sk \<in> fst ` set (store this) \<and> startsWith sk (makeDataKey this [])}"
  using fold_list_key_step_keys [of this now "map fst (store this)" "[]"]
  by (auto simp: dollar_list_keys)

lemma name_fold_clean_step [simp]: "name (fold (clean_step now) data this) = name this"
  by (induction data arbitrary: this) (auto simp: clean_step_def)

lemma fold_clean_step:
  "store (fold (clean_step now) data this) =
   filter (\<lambda>kv. fst kv \<notin> {makeDataKey this k | k e. (k, e) \<in> set data \<and> \<not> checkFresh e now}) (store this)"
proof (induction data arbitrary: this)
  case Nil
  then show ?case by simp
next
  case (Cons kv data)
  obtain k e where kv: "kv = (k, e)" by (cases kv)
  show ?case
  proof (cases "checkFresh e now")
    case True
    then have c: "clean_step now (k, e) this = this" by (simp add: clean_step_def)
    have "filter (\<lambda>kv. fst kv \<notin> {makeDataKey this k' | k' e'. (k', e') \<in> set data \<and> \<not> checkFresh e' now}) (store this)
        = filter (\<lambda>kv. fst kv \<notin> {makeDataKey this k' | k' e'. (k', e') \<in> set ((k, e) # data) \<and> \<not> checkFresh e' now}) (store this)"
      using True by (intro filter_cong [OF refl]) auto
    then show ?thesis by (simp add: kv c Cons.IH)
  next
    case False
    let ?this1 = "dollar_set this now k None (Fin (- 1))"
    from False have c: "clean_step now (k, e) this = ?this1" by (simp add: clean_step_def)
    have s1: "store ?this1 = filter (\<lambda>kv. fst kv \<noteq> makeDataKey this k) (store this)"
      by (simp add: dollar_set_def Storage_removeItem_def AList.delete_eq)
        (rule filter_cong, auto)
    have n1: "\<And>k. makeDataKey ?this1 k = makeDataKey this k"
      by (rule makeDataKey_name_cong) simp
    have "filter (\<lambda>kv. fst kv \<notin> {makeDataKey this k' | k' e'. (k', e') \<in> set data \<and> \<not> checkFresh e' now})
            (filter (\<lambda>kv. fst kv \<noteq> makeDataKey this k) (store this))
        = filter (\<lambda>kv. fst kv \<notin> {makeDataKey this k' | k' e'. (k', e') \<in> set ((k, e) # data) \<and> \<not> checkFresh e' now}) (store this)"
      using False unfolding filter_filter by (intro filter_cong [OF refl]) auto
    then show ?thesis by (simp add: kv c Cons.IH s1 n1)
  qed
qed

lemma name_clean [simp]: "name (clean this now) = name this"
  by (simp add: clean_def Let_def)

lemma store_clean:
  "store (clean this now) =
     (if num_gt (getNext this) (Fin now) then store this
      else filter (\<lambda>kv. \<not> stale this now (fst kv)) (store this))"
proof (cases "num_gt (getNext this) (Fin now)")
  case True
  then show ?thesis by (simp add: clean_def)
next
  case False
  have "filter (\<lambda>kv. fst kv \<notin> {makeDataKey this k | k e. (k, e) \<in> set (dollar_list this now) \<and> \<not> checkFresh e now}) (store this)
        = filter (\<lambda>kv. \<not> stale this now (fst kv)) (store this)"
  proof (rule filter_cong [OF refl])
    fix kv assume kv: "kv \<in> set (store this)"
    let ?n = "length (makeDataKey this [])"
    show "(fst kv \<notin> {makeDataKey this k | k e. (k, e) \<in> set (dollar_list this now) \<and> \<not> checkFresh e now})
          = (\<not> stale this now (fst kv))"
    proof -
      have "stale this now (fst kv)" if "fst kv = makeDataKey this k" "(k, e) \<in> set (dollar_list this now)"
        "\<not> checkFresh e now" for k e
        using that dollar_list_values [of k e this now] by (simp add: stale_def)
      moreover have "\<exists>k e. fst kv = makeDataKey this k \<and> (k, e) \<in> set (dollar_list this now) \<and> \<not> checkFresh e now"
        if st: "stale this now (fst kv)"
      proof -
        from st have sw: "startsWith (fst kv) (makeDataKey this [])" by (simp add: stale_def)
        have "drop ?n (fst kv) \<in> fst ` set (dollar_list this now)"
          unfolding dollar_list_keys_set using kv sw by auto
        then obtain e where e: "(drop ?n (fst kv), e) \<in> set (dollar_list this now)" by auto
        then have "e = expireAt (dollar_get this now (drop ?n (fst kv)))" by (rule dollar_list_values)
        with st have "\<not> checkFresh e now" by (simp add: stale_def)
        with e startsWith_makeDataKeyD [OF sw] show ?thesis by metis
      qed
      ultimately show ?thesis by blast
    qed
  qed
  with False show ?thesis by (simp add: clean_def fold_clean_step)
qed

lemma map_of_filter_key:
  "map_of (filter (\<lambda>kv. P (fst kv)) xs) k = (if P k then map_of xs k else None)"
  by (induction xs) auto

lemma map_of_store_clean:
  "map_of (store (clean this now)) k =
     (if \<not> num_gt (getNext this) (Fin now) \<and> stale this now k then None
      else map_of (store this) k)"
  using map_of_filter_key [of "\<lambda>k. \<not> stale this now k" "store this" k]
  by (simp add: store_clean)

lemma not_stale_makeKey [simp]: "\<not> stale this now (makeKey this k)"
  by (simp add: stale_def)

lemma getNext_clean [simp]: "getNext (clean this now) = getNext this"
  by (rule getNext_cong) (simp_all add: map_of_store_clean makeKey_name_cong [of "clean this now" this])

lemma stale_makeDataKey:
  "stale this now (makeDataKey this key) = (\<not> checkFresh (expireAt (dollar_get this now key)) now)"
  by (simp add: stale_def)

lemma stale_dollar_get: "stale this now (makeDataKey this key) \<Longrightarrow> dollar_get this now key = NULL_DATA"
  using dollar_get_cases [of this now key] by (auto simp: stale_makeDataKey)

lemma dollar_get_clean [simp]: "dollar_get (clean this now) now key = dollar_get this now key"
proof (cases "\<not> num_gt (getNext this) (Fin now) \<and> stale this now (makeDataKey this key)")
  case True
  then have "map_of (store (clean this now)) (makeDataKey (clean this now) key) = None"
    by (simp add: map_of_store_clean makeDataKey_name_cong [of "clean this now" this])
  then have "dollar_get (clean this now) now key = NULL_DATA" by (rule dollar_get_absent)
  with True show ?thesis by (simp add: stale_dollar_get)
next
  case False
  show ?thesis
    by (rule dollar_get_cong) (use False in \<open>auto simp: map_of_store_clean makeDataKey_name_cong [of "clean this now" this]\<close>)
qed

lemma stale_clean [simp]: "stale (clean this now) now sk = stale this now sk"
  by (simp add: stale_def makeDataKey_name_cong [of "clean this now" this])

lemma clean_idem: "clean (clean this now) now = clean this now"
proof (cases "num_gt (getNext this) (Fin now)")
  case True
  then show ?thesis by (simp add: clean_def)
next
  case False
  have "filter (\<lambda>kv. \<not> stale this now (fst kv)) (filter (\<lambda>kv. \<not> stale this now (fst kv)) (store this))
        = filter (\<lambda>kv. \<not> stale this now (fst kv)) (store this)"
    by simp
  with False have "store (clean (clean this now) now) = store (clean this now)"
    by (simp add: store_clean)
  then show ?thesis by (intro TTLStore.equality) simp_all
qed

subsection \<open>The public methods, in terms of the records\<close>

lemma getItem_result [simp]:
  "snd (getItem this now key) = tryJson (item (dollar_get this now key))"
  "fst (getItem this now key) = clean this now"
  by (simp_all add: getItem_def Let_def)

lemma getNext_dollar_set:
  "getNext (dollar_set this now key (Some p) e) =
     (if checkFresh e now \<and> \<not> num_gt e (getNext this) then num_or e PosInf else getNext this)"
proof -
  let ?t = "dollar_set this now key (Some p) e"
  have k: "makeKey ?t ''next'' = makeKey this ''next''"
    by (rule makeKey_name_cong) simp
  show ?thesis
    unfolding getNext_def [of ?t] Storage_getItem_def Let_def k map_of_dollar_set
    by (simp add: Number_js_def toFixed_def Number_string_String_number getNext_def
        Storage_getItem_def)
qed

lemma getNext_dollar_set_None [simp]:
  "getNext (dollar_set this now key None e) = getNext this"
  by (rule getNext_cong) (simp_all add: map_of_dollar_set makeKey_name_cong [of "dollar_set this now key None e" this])

lemma dollar_get_dollar_set_same:
  "dollar_get (dollar_set this now key itm e) t key =
     (case itm of
        None \<Rightarrow> NULL_DATA
      | Some p \<Rightarrow> if checkFresh e now \<and> checkFresh e t then \<lparr>expireAt = e, item = Some p\<rparr> else NULL_DATA)"
proof -
  let ?t = "dollar_set this now key itm e"
  have k: "makeDataKey ?t key = makeDataKey this key"
    by (rule makeDataKey_name_cong) simp
  show ?thesis
  proof (cases "itm \<noteq> None \<and> checkFresh e now")
    case True
    then obtain p where p: "itm = Some p" by auto
    with True have "map_of (store ?t) (makeDataKey ?t key) = Some (String_number e @ CHR '':'' # p)"
      unfolding k by (simp add: map_of_dollar_set)
    from dollar_get_written [OF this] True p show ?thesis by simp
  next
    case False
    then have "map_of (store ?t) (makeDataKey ?t key) = None"
      unfolding k by (auto simp: map_of_dollar_set split: option.splits)
    from dollar_get_absent [OF this] False show ?thesis by (auto split: option.splits)
  qed
qed

lemma dollar_get_dollar_set_other:
  "key' \<noteq> key \<Longrightarrow> dollar_get (dollar_set this now key itm e) t key' = dollar_get this t key'"
  by (rule dollar_get_cong)
    (simp_all add: map_of_dollar_set makeDataKey_name_cong [of "dollar_set this now key itm e" this])

lemma removeItem_store:
  "store (removeItem this now key) = AList.delete (makeDataKey this key) (store this)"
  by (simp add: removeItem_def dollar_set_def Storage_removeItem_def)

lemma dollar_set_stale_eq:
  "\<not> checkFresh e now \<Longrightarrow> dollar_set this now key itm e = removeItem this now key"
  by (simp add: dollar_set_def removeItem_def Let_def split: option.splits)

lemma length_delete_present:
  "distinct (map fst al) \<Longrightarrow> map_of al k = Some v \<Longrightarrow> length (AList.delete k al) + 1 = length al"
proof (induction al)
  case Nil
  then show ?case by simp
next
  case (Cons a al)
  show ?case
  proof (cases "fst a = k")
    case True
    with Cons.prems have "k \<notin> fst ` set al" by auto
    then have "AList.delete k al = al" by (rule delete_id)
    with True show ?thesis by (cases a) simp
  next
    case False
    with Cons show ?thesis by (cases a) auto
  qed
qed

lemma tryJson_NULL [simp]: "tryJson (item NULL_DATA) = JNull"
  by (simp add: tryJson_def NULL_DATA_def)

lemma setItem_None:
  "setItem this now key v None = dollar_set this now key (Some (JSON_stringify v)) (Fin (- 1))"
  by (simp add: setItem_def setItemUntil_def default_arg_def num_lt_def)


lemma checkFresh_never [simp]: "checkFresh (Fin (- 1)) t"
  by (simp add: checkFresh_def)



lemma makeDataKey_dollar_set [simp]:
  "makeDataKey (dollar_set this now key itm e) k = makeDataKey this k"
  by (rule makeDataKey_name_cong) simp

lemma makeKey_dollar_set [simp]:
  "makeKey (dollar_set this now key itm e) k = makeKey this k"
  by (rule makeKey_name_cong) simp

lemma makeDataKey_clean [simp]: "makeDataKey (clean this now) k = makeDataKey this k"
  by (rule makeDataKey_name_cong) simp

lemma makeKey_clean [simp]: "makeKey (clean this now) k = makeKey this k"
  by (rule makeKey_name_cong) simp

subsection \<open>The order on numbers\<close>

lemma num_le_refl: "\<not> isNaN a \<Longrightarrow> num_le a a"
  by (cases a) auto

lemma num_le_trans: "num_le a b \<Longrightarrow> num_le b c \<Longrightarrow> num_le a c"
  by (cases a; cases b; cases c) auto

lemma num_gt_imp_le: "num_gt a b \<Longrightarrow> num_le b a"
  by (cases a; cases b) auto

lemma not_num_gt_imp_le: "\<not> num_gt a b \<Longrightarrow> \<not> isNaN a \<Longrightarrow> \<not> isNaN b \<Longrightarrow> num_le a b"
  by (cases a; cases b) auto

lemma num_le_not_NaN: "num_le a b \<Longrightarrow> \<not> isNaN a \<and> \<not> isNaN b"
  by (cases a; cases b) auto

lemma num_gt_not_special: "num_gt a b \<Longrightarrow> b \<noteq> NaN \<and> b \<noteq> PosInf"
  by (cases a; cases b) auto

subsection \<open>The sentinel invariant, key by key\<close>

lemma set_data_keys:
  "set (data_keys this) =
   {drop (length (makeDataKey this [])) sk | sk. sk \<in> fst ` set (store this) \<and> startsWith sk (makeDataKey this [])}"
  by (auto simp: data_keys_def)

lemma fresh_key_in_data_keys:
  assumes "item (dollar_get this now key) \<noteq> None"
  shows "key \<in> set (data_keys this)"
proof -
  from assms have "map_of (store this) (makeDataKey this key) \<noteq> None"
    using dollar_get_cases [of this now key] by (auto simp: NULL_DATA_def)
  then have "makeDataKey this key \<in> fst ` set (store this)"
    by (simp add: map_of_eq_None_iff)
  then have "drop (length (makeDataKey this [])) (makeDataKey this key) \<in> set (data_keys this)"
    unfolding set_data_keys using startsWith_makeDataKey by blast
  then show ?thesis by simp
qed

lemma set_fresh_expiries:
  "set (fresh_expiries this now) =
   {expireAt (dollar_get this now key) | key. item (dollar_get this now key) \<noteq> None}"
proof -
  have "{k \<in> set (data_keys this). item (dollar_get this now k) \<noteq> None}
        = {k. item (dollar_get this now k) \<noteq> None}"
    using fresh_key_in_data_keys [of this now] by blast
  then have "set (fresh_expiries this now)
        = (\<lambda>k. expireAt (dollar_get this now k)) ` {k. item (dollar_get this now k) \<noteq> None}"
    by (simp add: fresh_expiries_def)
  then show ?thesis by blast
qed

lemma fresh_expiries_Nil:
  "fresh_expiries this now = [] \<longleftrightarrow> (\<forall>key. item (dollar_get this now key) = None)"
proof -
  have "fresh_expiries this now = [] \<longleftrightarrow> set (fresh_expiries this now) = {}" by simp
  also have "\<dots> \<longleftrightarrow> (\<forall>key. item (dollar_get this now key) = None)"
    unfolding set_fresh_expiries by auto
  finally show ?thesis .
qed

lemma list_all_fresh_expiries:
  "list_all P (fresh_expiries this now) \<longleftrightarrow>
   (\<forall>key. item (dollar_get this now key) \<noteq> None \<longrightarrow> P (expireAt (dollar_get this now key)))"
  unfolding list_all_iff set_fresh_expiries by blast

lemma sentinel_covers_iff:
  "sentinel_covers this now \<longleftrightarrow>
   (\<forall>key. item (dollar_get this now key) \<noteq> None \<longrightarrow>
      (\<exists>s. map_of (store this) (makeKey this ''next'') = Some s \<and> Number_string s \<noteq> Fin 0 \<and>
           num_le (Number_string s) (expireAt (dollar_get this now key))))"
proof (cases "map_of (store this) (makeKey this ''next'')")
  case None
  then show ?thesis
    by (simp add: sentinel_covers_def fresh_expiries_Nil Storage_getItem_def)
next
  case (Some s)
  show ?thesis
  proof
    assume "sentinel_covers this now"
    then show "\<forall>key. item (dollar_get this now key) \<noteq> None \<longrightarrow>
      (\<exists>s. map_of (store this) (makeKey this ''next'') = Some s \<and> Number_string s \<noteq> Fin 0 \<and>
           num_le (Number_string s) (expireAt (dollar_get this now key)))"
      by (auto simp add: sentinel_covers_def fresh_expiries_Nil Storage_getItem_def Some
          list_all_fresh_expiries)
  next
    assume a: "\<forall>key. item (dollar_get this now key) \<noteq> None \<longrightarrow>
      (\<exists>s. map_of (store this) (makeKey this ''next'') = Some s \<and> Number_string s \<noteq> Fin 0 \<and>
           num_le (Number_string s) (expireAt (dollar_get this now key)))"
    show "sentinel_covers this now"
    proof (cases "\<forall>key. item (dollar_get this now key) = None")
      case True
      then show ?thesis by (simp add: sentinel_covers_def fresh_expiries_Nil)
    next
      case False
      then obtain k where "item (dollar_get this now k) \<noteq> None" by blast
      with a have "Number_string s \<noteq> Fin 0" by (simp add: Some)
      moreover from a have "\<forall>key. item (dollar_get this now key) \<noteq> None \<longrightarrow>
          num_le (Number_string s) (expireAt (dollar_get this now key))"
        by (simp add: Some)
      ultimately show ?thesis
        by (simp add: sentinel_covers_def Storage_getItem_def Some list_all_fresh_expiries)
    qed
  qed
qed

lemma sentinel_le_min_iff:
  "sentinel_le_min this now \<longleftrightarrow>
   (\<forall>s key. map_of (store this) (makeKey this ''next'') = Some s \<and> item (dollar_get this now key) \<noteq> None \<longrightarrow>
      num_le (Number_string s) (expireAt (dollar_get this now key)))"
proof (cases "map_of (store this) (makeKey this ''next'')")
  case None
  then show ?thesis by (simp add: sentinel_le_min_def Storage_getItem_def)
next
  case (Some s)
  then show ?thesis
    by (simp add: sentinel_le_min_def Storage_getItem_def list_all_fresh_expiries)
qed

lemma sentinel_covers_imp_le_min:
  assumes "sentinel_covers this now"
  shows "sentinel_le_min this now"
  unfolding sentinel_le_min_iff
proof (intro allI impI)
  fix s key
  assume h: "map_of (store this) (makeKey this ''next'') = Some s \<and> item (dollar_get this now key) \<noteq> None"
  with assms obtain s' where "map_of (store this) (makeKey this ''next'') = Some s'"
    "num_le (Number_string s') (expireAt (dollar_get this now key))"
    unfolding sentinel_covers_iff by blast
  with h show "num_le (Number_string s) (expireAt (dollar_get this now key))" by simp
qed

lemma checkFresh_mono: "checkFresh e t \<Longrightarrow> now \<le> t \<Longrightarrow> checkFresh e now"
  by (cases e) (auto simp: checkFresh_def)

lemma checkFresh_nonzero: "checkFresh e now \<Longrightarrow> 0 \<le> now \<Longrightarrow> e \<noteq> Fin 0"
  by (auto simp: checkFresh_def)

lemma dollar_get_earlier:
  assumes "item (dollar_get this t key) \<noteq> None" and "now \<le> t"
  shows "dollar_get this now key = dollar_get this t key"
  using assms checkFresh_mono [of _ t now]
  by (auto simp: dollar_get_def Let_def NULL_DATA_def split: option.splits if_splits)

lemma getNext_present:
  assumes "map_of (store this) (makeKey this ''next'') = Some s"
    and "Number_string s \<noteq> Fin 0" and "\<not> isNaN (Number_string s)"
  shows "getNext this = Number_string s"
  using assms
  by (cases "Number_string s") (simp_all add: getNext_def Storage_getItem_def Number_js_def num_or_def)

lemma getNext_below:
  assumes "num_gt e (getNext this)"
  shows "\<exists>s. map_of (store this) (makeKey this ''next'') = Some s \<and>
             Number_string s = getNext this \<and> Number_string s \<noteq> Fin 0"
proof -
  from assms have g: "getNext this \<noteq> NaN" "getNext this \<noteq> PosInf"
    using num_gt_not_special by blast+
  show ?thesis
  proof (cases "map_of (store this) (makeKey this ''next'')")
    case None
    with g show ?thesis
      by (simp add: getNext_def Storage_getItem_def Number_js_def num_or_def)
  next
    case (Some s)
    with g show ?thesis
      by (auto simp: getNext_def Storage_getItem_def Number_js_def num_or_def split: if_splits)
  qed
qed

lemma sentinel_covers_dollar_set:
  assumes now: "0 \<le> now" and inv: "sentinel_covers this now"
  shows "sentinel_covers (dollar_set this now key itm e) now"
  unfolding sentinel_covers_iff
proof (intro allI impI)
  let ?t = "dollar_set this now key itm e"
  let ?nk = "makeKey this ''next''"
  fix k
  assume fk: "item (dollar_get ?t now k) \<noteq> None"
  have old: "\<exists>s. map_of (store this) ?nk = Some s \<and> Number_string s \<noteq> Fin 0 \<and>
       num_le (Number_string s) (expireAt (dollar_get this now k'))"
    if "item (dollar_get this now k') \<noteq> None" for k'
    using inv that unfolding sentinel_covers_iff by blast
  show "\<exists>s. map_of (store ?t) (makeKey ?t ''next'') = Some s \<and> Number_string s \<noteq> Fin 0 \<and>
       num_le (Number_string s) (expireAt (dollar_get ?t now k))"
  proof (cases "itm \<noteq> None \<and> checkFresh e now")
    case False
    then have same: "map_of (store ?t) ?nk = map_of (store this) ?nk"
      by (auto simp: map_of_dollar_set)
    from False have "dollar_get ?t now key = NULL_DATA"
      by (auto simp: dollar_get_dollar_set_same split: option.splits)
    with fk have "k \<noteq> key" by (auto simp: NULL_DATA_def)
    then have "dollar_get ?t now k = dollar_get this now k"
      by (rule dollar_get_dollar_set_other)
    with fk old [of k] same show ?thesis by simp
  next
    case True
    then obtain p where p: "itm = Some p" and fr: "checkFresh e now" by auto
    have nn: "\<not> isNaN e" using fr by (rule checkFresh_not_NaN)
    have nz: "e \<noteq> Fin 0" using fr now by (rule checkFresh_nonzero)
    have gk: "dollar_get ?t now key = \<lparr>expireAt = e, item = Some p\<rparr>"
      using fr by (simp add: p dollar_get_dollar_set_same)
    show ?thesis
    proof (cases "num_gt e (getNext this)")
      case True
      then have same: "map_of (store ?t) ?nk = map_of (store this) ?nk"
        by (simp add: map_of_dollar_set)
      from getNext_below [OF True] obtain s where
        s: "map_of (store this) ?nk = Some s" "Number_string s = getNext this" "Number_string s \<noteq> Fin 0"
        by blast
      show ?thesis
      proof (cases "k = key")
        case True
        have "num_le (Number_string s) e" using \<open>num_gt e (getNext this)\<close> s(2)
          by (simp add: num_gt_imp_le)
        with s same True gk show ?thesis by simp
      next
        case False
        then have "dollar_get ?t now k = dollar_get this now k"
          by (rule dollar_get_dollar_set_other)
        with fk old [of k] same show ?thesis by simp
      qed
    next
      case False
      then have new: "map_of (store ?t) ?nk = Some (toFixed e)"
        using fr by (simp add: p map_of_dollar_set)
      have rd: "Number_string (toFixed e) = e"
        by (simp add: toFixed_def Number_string_String_number)
      show ?thesis
      proof (cases "k = key")
        case True
        with new rd nz nn gk show ?thesis by (simp add: num_le_refl)
      next
        case kk: False
        then have eq: "dollar_get ?t now k = dollar_get this now k"
          by (rule dollar_get_dollar_set_other)
        with fk old [of k] obtain s where
          s: "map_of (store this) ?nk = Some s" "Number_string s \<noteq> Fin 0"
             "num_le (Number_string s) (expireAt (dollar_get this now k))"
          by auto
        from s(3) have "\<not> isNaN (Number_string s)" using num_le_not_NaN by blast
        with s have "getNext this = Number_string s" by (simp add: getNext_present)
        with False nn \<open>\<not> isNaN (Number_string s)\<close> have "num_le e (Number_string s)"
          by (simp add: not_num_gt_imp_le)
        from this s(3) have "num_le e (expireAt (dollar_get this now k))" by (rule num_le_trans)
        with new rd nz eq show ?thesis by simp
      qed
    qed
  qed
qed

lemma sentinel_covers_clean:
  assumes "sentinel_covers this now"
  shows "sentinel_covers (clean this now) now"
  using assms unfolding sentinel_covers_iff
  by (simp add: map_of_store_clean)

lemma sentinel_covers_mono:
  assumes "sentinel_covers this now" and "now \<le> t"
  shows "sentinel_covers this t"
  unfolding sentinel_covers_iff
proof (intro allI impI)
  fix k assume fk: "item (dollar_get this t k) \<noteq> None"
  from dollar_get_earlier [OF fk assms(2)] have eq: "dollar_get this now k = dollar_get this t k" .
  with fk assms(1) show "\<exists>s. map_of (store this) (makeKey this ''next'') = Some s \<and>
      Number_string s \<noteq> Fin 0 \<and> num_le (Number_string s) (expireAt (dollar_get this t k))"
    unfolding sentinel_covers_iff by metis
qed

lemma sentinel_covers_perform:
  assumes "0 \<le> now" and "sentinel_covers this now"
  shows "sentinel_covers (perform c now this) now"
  using assms
  by (cases c)
    (simp_all add: setItem_def setItemUntil_def updateItem_def setExpire_def setExpireAt_def
      removeItem_def Let_def sentinel_covers_dollar_set sentinel_covers_clean)

lemma sentinel_covers_no_data:
  "fresh_expiries this now = [] \<Longrightarrow> sentinel_covers this now"
  by (simp add: sentinel_covers_def)




subsection \<open>A sentinel that holds \<open>-1\<close>\<close>






lemma name_perform [simp]: "name (perform c now this) = name this"
  by (cases c)
    (simp_all add: setItem_def setItemUntil_def updateItem_def setExpire_def setExpireAt_def
      removeItem_def Let_def)

lemma name_run [simp]: "name (run cs this) = name this"
  by (induction cs arbitrary: this) simp_all




subsection \<open>Stores that only the public interface has written to\<close>

lemma getNext_not_below_dollar_set:
  assumes "0 \<le> now" and "\<not> num_lt (getNext this) (Fin (- 1))"
  shows "\<not> num_lt (getNext (dollar_set this now key itm e)) (Fin (- 1))"
proof (cases itm)
  case None
  with assms(2) show ?thesis by simp
next
  case (Some p)
  have "\<not> num_gt (Fin (- 1)) (num_or e PosInf)" if "checkFresh e now"
    using that assms(1) by (cases e) (auto simp: checkFresh_def num_or_def split: if_splits)
  with assms(2) show ?thesis
    by (simp add: Some getNext_dollar_set num_lt_def)
qed

lemma getNext_not_below_perform:
  assumes "0 \<le> now" and "\<not> num_lt (getNext this) (Fin (- 1))"
  shows "\<not> num_lt (getNext (perform c now this)) (Fin (- 1))"
  using assms
  by (cases c)
    (simp_all add: setItem_def setItemUntil_def updateItem_def setExpire_def setExpireAt_def
      removeItem_def Let_def getNext_not_below_dollar_set)

lemma getNext_not_below_run:
  assumes "\<forall>ct \<in> set cs. 0 \<le> snd ct" and "\<not> num_lt (getNext this) (Fin (- 1))"
  shows "\<not> num_lt (getNext (run cs this)) (Fin (- 1))"
  using assms
  by (induction cs arbitrary: this) (simp_all add: getNext_not_below_perform)

lemma getNext_empty_store: "getNext \<lparr>name = nm, store = []\<rparr> = PosInf"
  by (simp add: getNext_def Storage_getItem_def Number_js_def num_or_def)

lemma sentinel_covers_run:
  assumes "sentinel_covers this t0" and "0 \<le> t0" and "sorted (t0 # map snd cs)"
  shows "sentinel_covers (run cs this) (last (t0 # map snd cs))"
  using assms
proof (induction cs arbitrary: this t0)
  case Nil
  then show ?case by simp
next
  case (Cons ct cs)
  from Cons.prems have le: "t0 \<le> snd ct" "0 \<le> snd ct" "sorted (snd ct # map snd cs)" by auto
  from Cons.prems(1) le(1) have "sentinel_covers this (snd ct)" by (rule sentinel_covers_mono)
  with le(2) have "sentinel_covers (perform (fst ct) (snd ct) this) (snd ct)"
    by (rule sentinel_covers_perform)
  from Cons.IH [OF this le(2) le(3)] show ?case by simp
qed

lemma sentinel_le_min_reachable:
  assumes "0 \<le> t0" and "sorted (t0 # map snd cs)"
  shows "sentinel_le_min (run cs (new_TTLStore nm [] t0)) (last (t0 # map snd cs))"
proof -
  have "fresh_expiries \<lparr>name = nm, store = []\<rparr> t0 = []"
    by (simp add: fresh_expiries_def data_keys_def)
  then have "sentinel_covers \<lparr>name = nm, store = []\<rparr> t0" by (rule sentinel_covers_no_data)
  then have "sentinel_covers (new_TTLStore nm [] t0) t0"
    unfolding new_TTLStore_def by (rule sentinel_covers_clean)
  from sentinel_covers_run [OF this assms] show ?thesis by (rule sentinel_covers_imp_le_min)
qed

section \<open>The claims\<close>



text \<open>
  C2. After \<^verbatim>\<open>setItem(k, v)\<close> without a TTL, \<^verbatim>\<open>getItem(k)\<close> at any later time returns
  the JSON round trip of \<open>v\<close>, that is \<open>tryJson\<close> of \<^verbatim>\<open>JSON.stringify(v)\<close>, whatever the
  store held before; for a value that the round trip gives back, it returns \<open>v\<close>.
\<close>

theorem C2_setItem_getItem:
  "snd (getItem (setItem this now key v None) t key) = tryJson (Some (JSON_stringify v)) \<and>
   (JSON_parse (JSON_stringify v) = Some v \<longrightarrow>
      snd (getItem (setItem this now key v None) t key) = v)"
  by (simp add: setItem_None dollar_get_dollar_set_same tryJson_def)

theorem C2_setItem_getItem_witness:
  "JSON_parse (JSON_stringify (JStr ''mock1'')) = Some (JStr ''mock1'') \<and>
   snd (getItem (setItem (new_TTLStore ''mock'' [] 1000) 1000 ''one'' (JStr ''mock1'') None) 1000 ''one'')
     = JStr ''mock1''"
proof -
  have h: "JSON_parse (JSON_stringify (JStr ''mock1'')) = Some (JStr ''mock1'')"
    by code_simp
  from C2_setItem_getItem [of "new_TTLStore ''mock'' [] 1000" 1000 "''one''" "JStr ''mock1''" 1000]
  have "snd (getItem (setItem (new_TTLStore ''mock'' [] 1000) 1000 ''one'' (JStr ''mock1'') None) 1000 ''one'')
     = JStr ''mock1''"
    using h by (rule conjunct2 [THEN mp])
  with h show ?thesis by (rule conjI)
qed






text \<open>
  C5. When \<open>k\<close> holds a fresh entry with expiration \<open>T\<close> (\<^verbatim>\<open>$get\<close> reports an item and
  \<open>expireAt = T\<close>), \<^verbatim>\<open>updateItem(k, v2)\<close> writes the raw record \<open>T:JSON.stringify(v2)\<close>:
  afterwards \<^verbatim>\<open>$get\<close> reports the encoding of \<open>v2\<close> as the item and the same
  \<open>expireAt = T\<close>, and \<^verbatim>\<open>getItem(k)\<close> returns the round trip of \<open>v2\<close>.
\<close>

theorem C5_updateItem_keeps_expiry:
  assumes "dollar_get this now key = \<lparr>expireAt = T, item = Some p\<rparr>"
  shows "dollar_get (updateItem this now key v2) now key
           = \<lparr>expireAt = T, item = Some (JSON_stringify v2)\<rparr> \<and>
         Storage_getItem (store (updateItem this now key v2)) (makeDataKey this key)
           = Some (String_number T @ CHR '':'' # JSON_stringify v2) \<and>
         snd (getItem (updateItem this now key v2) now key) = tryJson (Some (JSON_stringify v2))"
proof -
  from assms have f: "checkFresh T now"
    using dollar_get_cases [of this now key] by (auto simp: NULL_DATA_def)
  have u: "updateItem this now key v2 = dollar_set this now key (Some (JSON_stringify v2)) T"
    by (simp add: updateItem_def setItemUntil_def default_arg_def assms)
  show ?thesis
    using f by (simp add: u dollar_get_dollar_set_same Storage_getItem_def map_of_dollar_set)
qed

theorem C5_updateItem_keeps_expiry_witness:
  "dollar_get \<lparr>name = ''mock'', store = [(''mock.one'', ''5000:1''), (''mock:next'', ''5000'')]\<rparr> 1000 ''one''
     = \<lparr>expireAt = Fin 5000, item = Some ''1''\<rparr> \<and>
   dollar_get (updateItem \<lparr>name = ''mock'', store = [(''mock.one'', ''5000:1''), (''mock:next'', ''5000'')]\<rparr> 1000 ''one'' (JNum 2)) 1000 ''one''
     = \<lparr>expireAt = Fin 5000, item = Some ''2''\<rparr> \<and>
   Storage_getItem (store (updateItem \<lparr>name = ''mock'', store = [(''mock.one'', ''5000:1''), (''mock:next'', ''5000'')]\<rparr> 1000 ''one'' (JNum 2))) ''mock.one''
     = Some ''5000:2''"
proof -
  let ?t = "\<lparr>name = ''mock'', store = [(''mock.one'', ''5000:1''), (''mock:next'', ''5000'')]\<rparr>"
  have h: "dollar_get ?t 1000 ''one'' = \<lparr>expireAt = Fin 5000, item = Some ''1''\<rparr>"
    by code_simp
  have s: "String_number (Fin 5000) = ''5000''" "JSON_stringify (JNum 2) = ''2''"
    "makeDataKey ?t ''one'' = ''mock.one''"
    by (simp_all add: digits.simps digit_char_simps makeDataKey_def)
  note th = C5_updateItem_keeps_expiry [OF h, of "JNum 2"]
  from th have a: "dollar_get (updateItem ?t 1000 ''one'' (JNum 2)) 1000 ''one''
     = \<lparr>expireAt = Fin 5000, item = Some ''2''\<rparr>"
    unfolding s by (rule conjunct1)
  from th have b: "Storage_getItem (store (updateItem ?t 1000 ''one'' (JNum 2))) ''mock.one''
     = Some ''5000:2''"
    unfolding s by (simp only: append_Cons append_Nil)
  from h a b show ?thesis by (intro conjI)
qed

text \<open>
  C6. When \<open>k\<close> has no current entry (\<^verbatim>\<open>$get\<close> reports no item: the record is absent,
  expired or corrupted) and the clock is past the epoch, \<^verbatim>\<open>updateItem(k, v)\<close> is a
  write with immediate expiration: it equals \<^verbatim>\<open>setItemUntil(k, v, now)\<close>, which only
  removes the data record; afterwards the store has no data record for \<open>k\<close> and
  \<^verbatim>\<open>getItem(k)\<close> returns \<^verbatim>\<open>null\<close> at any time.
\<close>

theorem C6_updateItem_absent:
  assumes "item (dollar_get this now key) = None" and "0 < now"
  shows "updateItem this now key v = setItemUntil this now key v (Some (Fin now)) \<and>
         updateItem this now key v = removeItem this now key \<and>
         Storage_getItem (store (updateItem this now key v)) (makeDataKey this key) = None \<and>
         snd (getItem (updateItem this now key v) t key) = JNull"
proof -
  from assms(1) have n: "dollar_get this now key = NULL_DATA"
    using dollar_get_cases [of this now key] by auto
  from assms(2) have "\<not> checkFresh (Fin 1) now" "\<not> checkFresh (Fin now) now"
    by (simp_all add: checkFresh_def)
  then have u: "updateItem this now key v = removeItem this now key"
    and s: "setItemUntil this now key v (Some (Fin now)) = removeItem this now key"
    by (simp_all add: updateItem_def setItemUntil_def default_arg_def n NULL_DATA_def
        dollar_set_stale_eq)
  have "snd (getItem (removeItem this now key) t key) = JNull"
    by (simp add: removeItem_def dollar_get_dollar_set_same)
  then show ?thesis
    by (simp add: u s removeItem_store Storage_getItem_def delete_conv')
qed

theorem C6_updateItem_absent_witness:
  "item (dollar_get \<lparr>name = ''mock'', store = [(''mock.one'', ''500:1''), (''mock.two'', ''junk'')]\<rparr> 1000 ''one'') = None \<and>
   (0::int) < 1000 \<and>
   store (updateItem \<lparr>name = ''mock'', store = [(''mock.one'', ''500:1''), (''mock.two'', ''junk'')]\<rparr> 1000 ''one'' (JNum 7))
     = [(''mock.two'', ''junk'')] \<and>
   snd (getItem (updateItem \<lparr>name = ''mock'', store = [(''mock.one'', ''500:1''), (''mock.two'', ''junk'')]\<rparr> 1000 ''one'' (JNum 7)) 1000 ''one'') = JNull"
proof -
  let ?t = "\<lparr>name = ''mock'', store = [(''mock.one'', ''500:1''), (''mock.two'', ''junk'')]\<rparr>"
  have h: "item (dollar_get ?t 1000 ''one'') = None"
    by (simp add: dollar_get_def makeDataKey_def Storage_getItem_def Number_string_def trim_def
        is_space_def unsigned_literal_def is_digit_def digits_val_def digit_val_def checkFresh_def
        NULL_DATA_def)
  have p: "(0::int) < 1000" by simp
  note th = C6_updateItem_absent [OF h p, of "JNum 7" 1000]
  from th have u: "updateItem ?t 1000 ''one'' (JNum 7) = removeItem ?t 1000 ''one''"
    by (rule conjunct2 [THEN conjunct1])
  from th have g: "snd (getItem (updateItem ?t 1000 ''one'' (JNum 7)) 1000 ''one'') = JNull"
    by (rule conjunct2 [THEN conjunct2, THEN conjunct2])
  have "store (updateItem ?t 1000 ''one'' (JNum 7)) = [(''mock.two'', ''junk'')]"
    unfolding u by (simp add: removeItem_store makeDataKey_def)
  with h g show ?thesis by simp
qed

text \<open>
  C7. \<^verbatim>\<open>removeItem(k)\<close> deletes the raw data record of \<open>k\<close> at once: the record is
  absent from the store it returns, a \<^verbatim>\<open>getItem(k)\<close> right after it (at any time)
  returns \<^verbatim>\<open>null\<close>, and the number of records of the underlying store goes down by
  exactly one if the data record existed and stays the same if it did not.
\<close>

theorem C7_removeItem:
  assumes "wf_storage (store this)"
  shows "Storage_getItem (store (removeItem this now key)) (makeDataKey this key) = None \<and>
         snd (getItem (removeItem this now key) t key) = JNull \<and>
         (case Storage_getItem (store this) (makeDataKey this key) of
            Some r \<Rightarrow> Storage_length (store (removeItem this now key)) + 1 = Storage_length (store this)
          | None \<Rightarrow> Storage_length (store (removeItem this now key)) = Storage_length (store this))"
proof -
  have 1: "Storage_getItem (store (removeItem this now key)) (makeDataKey this key) = None"
    by (simp add: removeItem_store Storage_getItem_def delete_conv')
  have 2: "snd (getItem (removeItem this now key) t key) = JNull"
    by (simp add: removeItem_def dollar_get_dollar_set_same)
  have 3: "Storage_length (store (removeItem this now key)) + 1 = Storage_length (store this)"
    if "Storage_getItem (store this) (makeDataKey this key) = Some r" for r
    using that assms length_delete_present [of "store this" "makeDataKey this key" r]
    by (simp add: removeItem_store Storage_length_def Storage_getItem_def wf_storage_def)
  have 4: "Storage_length (store (removeItem this now key)) = Storage_length (store this)"
    if "Storage_getItem (store this) (makeDataKey this key) = None"
    using that by (simp add: removeItem_store Storage_getItem_def map_of_eq_None_iff)
  show ?thesis using 1 2 3 4 by (simp split: option.splits)
qed

theorem C7_removeItem_witness:
  "wf_storage [(''mock.one'', ''-1:1''), (''mock:next'', ''-1'')] \<and>
   store (removeItem \<lparr>name = ''mock'', store = [(''mock.one'', ''-1:1''), (''mock:next'', ''-1'')]\<rparr> 1000 ''one'')
     = [(''mock:next'', ''-1'')] \<and>
   snd (getItem (removeItem \<lparr>name = ''mock'', store = [(''mock.one'', ''-1:1''), (''mock:next'', ''-1'')]\<rparr> 1000 ''one'') 1000 ''one'') = JNull \<and>
   Storage_length (store (removeItem \<lparr>name = ''mock'', store = [(''mock.one'', ''-1:1''), (''mock:next'', ''-1'')]\<rparr> 1000 ''one'')) + 1
     = Storage_length [(''mock.one'', ''-1:1''), (''mock:next'', ''-1'')]"
proof -
  have w: "wf_storage (store \<lparr>name = ''mock'', store = [(''mock.one'', ''-1:1''), (''mock:next'', ''-1'')]\<rparr>)"
    by (simp add: wf_storage_def)
  show ?thesis
    using C7_removeItem [OF w, of 1000 "''one''" 1000] w
    by (simp add: removeItem_store makeDataKey_def Storage_getItem_def)
qed

text \<open>
  C8. \<^verbatim>\<open>clean()\<close> is idempotent: for every store and a fixed current time, a second
  call right after the first leaves the object, and so the contents of the underlying
  store, as the first call left them.
\<close>

theorem C8_clean_idempotent:
  "clean (clean this now) now = clean this now \<and>
   store (clean (clean this now) now) = store (clean this now)"
  by (simp add: clean_idem)

text \<open>
  C9. When \<open>e\<close> is not \<open>-1\<close> and not greater than the current time (\<^verbatim>\<open>NaN\<close>,
  \<open>-Infinity\<close> and every past timestamp included), \<^verbatim>\<open>setItemUntil(k, v, e)\<close> does what
  \<^verbatim>\<open>removeItem(k)\<close> does: the data record of \<open>k\<close> is gone afterwards and nothing else
  changes. With a clock that is not before the epoch the same holds for
  \<^verbatim>\<open>setItem(k, v, 0)\<close>.
\<close>

theorem C9_expired_write_is_remove:
  "(e \<noteq> Fin (- 1) \<and> \<not> num_gt e (Fin now) \<longrightarrow>
      setItemUntil this now key v (Some e) = removeItem this now key) \<and>
   (0 \<le> now \<longrightarrow> setItem this now key v (Some (Fin 0)) = removeItem this now key) \<and>
   Storage_getItem (store (removeItem this now key)) (makeDataKey this key) = None \<and>
   (\<forall>k. k \<noteq> makeDataKey this key \<longrightarrow>
      Storage_getItem (store (removeItem this now key)) k = Storage_getItem (store this) k)"
proof -
  have a: "setItemUntil this now key v (Some e) = removeItem this now key"
    if "e \<noteq> Fin (- 1)" "\<not> num_gt e (Fin now)"
  proof -
    from that have "\<not> checkFresh e now" by (simp add: checkFresh_def)
    then show ?thesis
      by (simp add: setItemUntil_def default_arg_def dollar_set_stale_eq)
  qed
  have b: "setItem this now key v (Some (Fin 0)) = removeItem this now key" if "0 \<le> now"
  proof -
    from that have "\<not> checkFresh (Fin now) now" by (simp add: checkFresh_def)
    then show ?thesis
      by (simp add: setItem_def setItemUntil_def default_arg_def num_lt_def dollar_set_stale_eq)
  qed
  show ?thesis
    using a b by (simp add: removeItem_store Storage_getItem_def delete_conv')
qed

theorem C9_expired_write_is_remove_witness:
  "NaN \<noteq> Fin (- 1) \<and> \<not> num_gt NaN (Fin 1000) \<and> (0::int) \<le> 1000 \<and>
   setItemUntil \<lparr>name = ''mock'', store = [(''mock.one'', ''5000:1'')]\<rparr> 1000 ''one'' (JNum 2) (Some NaN)
     = removeItem \<lparr>name = ''mock'', store = [(''mock.one'', ''5000:1'')]\<rparr> 1000 ''one'' \<and>
   setItem \<lparr>name = ''mock'', store = [(''mock.one'', ''5000:1'')]\<rparr> 1000 ''one'' (JNum 2) (Some (Fin 0))
     = removeItem \<lparr>name = ''mock'', store = [(''mock.one'', ''5000:1'')]\<rparr> 1000 ''one'' \<and>
   store (removeItem \<lparr>name = ''mock'', store = [(''mock.one'', ''5000:1'')]\<rparr> 1000 ''one'') = []"
  using C9_expired_write_is_remove
    [of NaN 1000 "\<lparr>name = ''mock'', store = [(''mock.one'', ''5000:1'')]\<rparr>" "''one''" "JNum 2"]
  by (simp add: removeItem_store makeDataKey_def)




end
